theory Spec2Isabelle
  imports Main
begin

section \<open>The useSWRPages hook of src/esm/use-swr-pages.js\<close>

text \<open>
  The hook keeps three pieces of component state (\<open>pageCount\<close>, \<open>pageOffsets\<close>,
  \<open>pageSWRs\<close>), one ref (\<open>emptyPageRef\<close>), and writes to two stores that outlive a
  render: the imported \<open>cache\<close> and the module-level \<open>pageCacheMap\<close>. The model passes
  all of them around in one record. A state setter called with an updater function
  (\<open>setPageCount(c => ...)\<close>) is applied to the state that is current when the
  update is processed; a variable that a callback reads from its enclosing render
  (\<open>isLoadingMore\<close>, \<open>isReachingEnd\<close> in \<open>loadMore\<close>; \<open>pageSWRs\<close>, \<open>pageOffsets\<close> in
  \<open>getWithSWR\<close>) is a parameter of the model of that callback, apart from the state.
\<close>

subsection \<open>JavaScript values and arrays\<close>

text \<open>
  Offsets, fetched data, errors and handles are opaque to the hook: it tests them
  for \<open>undefined\<close> and \<open>null\<close> and compares them with \<open>===\<close> and \<open>!==\<close>. \<open>Val v\<close>
  stands for every other value, and equality of \<open>'v\<close> for strict identity (which
  leaves out \<open>NaN\<close>, the one value that is not identical to itself). \<open>pageCount\<close> is
  a natural number: it starts at 1 or at a stored count and only ever grows by 1,
  far below the range where a JavaScript number stops counting exactly.
\<close>

datatype 'v jsval = Undefined | Null | Val 'v

text \<open>
  A JavaScript array is a list; \<open>hole\<close> is what a read yields where nothing was
  stored (\<open>undefined\<close>). A read past the end yields the hole; a write past the end
  extends the array, leaving holes in between.
\<close>

definition js_get :: "'a \<Rightarrow> 'a list \<Rightarrow> nat \<Rightarrow> 'a" where
  "js_get hole xs i = (if i < length xs then xs ! i else hole)"

definition js_set :: "'a \<Rightarrow> 'a list \<Rightarrow> nat \<Rightarrow> 'a \<Rightarrow> 'a list" where
  "js_set hole xs i v =
     (if i < length xs then xs[i := v]
      else xs @ replicate (i - length xs) hole @ [v])"

subsection \<open>Fetch results, the persisted store, page handles\<close>

text \<open>The object a page passes to \<open>withSWR\<close>, and the copy stored in \<open>pageSWRs\<close>.\<close>

record 'v swr =
  data :: "'v jsval"
  error :: "'v jsval"
  revalidate :: "'v jsval"
  isValidating :: bool
  mutate :: "'v jsval"

text \<open>
  \<open>cache\<close> holds a number under the page-count key and an array of offsets under the
  page-offset key. The store is kept as the list of the \<open>cache.set\<close> calls made so
  far, the latest first, so that a value written again shows as a write;
  \<open>cache.get\<close> finds the latest value written under a key.
\<close>

datatype 'v cacheval = CCount nat | COffsets "'v jsval list"

type_synonym 'v store = "(string \<times> 'v cacheval) list"

definition cache_set :: "string \<Rightarrow> 'v cacheval \<Rightarrow> 'v store \<Rightarrow> 'v store" where
  "cache_set k v c = (k, v) # c"

definition cache_get :: "'v store \<Rightarrow> string \<Rightarrow> 'v cacheval option" where
  "cache_get c k = map_of c k"

definition pageCountKey :: "string \<Rightarrow> string" where
  "pageCountKey pageKey = ''_swr_page_count_'' @ pageKey"

definition pageOffsetKey :: "string \<Rightarrow> string" where
  "pageOffsetKey pageKey = ''_swr_page_offset_'' @ pageKey"

text \<open>
  The closure \<open>getWithSWR(id)\<close>: the slot it is bound to, and the \<open>pageSWRs\<close> and
  \<open>pageOffsets\<close> of the render that created it.
\<close>

record 'v reporter =
  seenSWRs :: "'v swr option list"
  seenOffsets :: "'v jsval list"
  slot :: nat

text \<open>
  The props of a \<open>Page\<close> element (its \<open>key\<close> is the string built from the offset and
  the index, kept here as the pair), and an entry of the page cache. \<open>'f\<close> is the
  identity of the memoized page function.
\<close>

record 'v props =
  key :: "'v jsval \<times> nat"
  offset :: "'v jsval"
  withSWR :: "'v reporter"

record ('v, 'f) page_entry =
  component :: "'v props"
  pageFn :: 'f
  entry_offset :: "'v jsval"

text \<open>
  What a page function returns, as far as \<open>dataList && !dataList.length\<close> can tell:
  a falsy value (\<open>null\<close>, \<open>undefined\<close>, \<open>false\<close>), an array of items, or a truthy
  value without a \<open>length\<close> (a single element such as a placeholder).
\<close>

datatype 'i rendered = Falsy | Items "'i list" | Element

record ('v, 'f) hook_state =
  pageCount :: nat
  pageOffsets :: "'v jsval list"
  pageSWRs :: "'v swr option list"
  emptyPageRef :: bool
  cache :: "'v store"
  pageCacheMap :: "string \<rightharpoonup> ('v, 'f) page_entry option list"

subsection \<open>Initial state\<close>

text \<open>
  \<open>useState(cache.get(pageCountKey) || 1)\<close> and
  \<open>useState(cache.get(pageOffsetKey) || [null])\<close>: a missing entry and a stored \<open>0\<close>
  are falsy. Only this hook writes under the two keys, a number under the first and
  an array under the second.
\<close>

definition useSWRPages_init ::
  "string \<Rightarrow> 'v store \<Rightarrow> (string \<rightharpoonup> ('v, 'f) page_entry option list)
     \<Rightarrow> ('v, 'f) hook_state" where
  "useSWRPages_init pageKey c m =
     \<lparr>pageCount = (case cache_get c (pageCountKey pageKey) of
                     Some (CCount n) \<Rightarrow> if n = 0 then 1 else n
                   | _ \<Rightarrow> 1),
      pageOffsets = (case cache_get c (pageOffsetKey pageKey) of
                       Some (COffsets xs) \<Rightarrow> xs
                     | _ \<Rightarrow> [Null]),
      pageSWRs = [],
      emptyPageRef = False,
      cache = c,
      pageCacheMap = m\<rparr>"

subsection \<open>Derived flags\<close>

text \<open>
  \<open>pageOffsets[pageCount] === null\<close>, \<open>pageCount > pageOffsets.length\<close> and
  \<open>isReachingEnd && pageCount === 1 && emptyPageRef.current\<close>. The ref holds
  whatever \<open>dataList && !dataList.length\<close> evaluated to; the model keeps whether
  that value is truthy, which is all the conjunction passes on.
\<close>

definition isReachingEnd :: "('v, 'f) hook_state \<Rightarrow> bool" where
  "isReachingEnd s \<longleftrightarrow> js_get Undefined (pageOffsets s) (pageCount s) = Null"

definition isLoadingMore :: "('v, 'f) hook_state \<Rightarrow> bool" where
  "isLoadingMore s \<longleftrightarrow> pageCount s > length (pageOffsets s)"

definition isEmpty :: "('v, 'f) hook_state \<Rightarrow> bool" where
  "isEmpty s \<longleftrightarrow> isReachingEnd s \<and> pageCount s = 1 \<and> emptyPageRef s"

subsection \<open>The Page wrapper\<close>

text \<open>
  \<open>Page\<close> calls the current page function on its props and records
  \<open>dataList && !dataList.length\<close> in the ref: falsy for a falsy \<open>dataList\<close>, true for
  an array of length 0 and for a truthy value whose \<open>length\<close> is \<open>undefined\<close>. The
  page function calls \<open>withSWR\<close> while it runs; what that call does to the state is
  deferred by \<open>setTimeout\<close> and is the step \<open>getWithSWR\<close> below.
\<close>

definition empty_flag :: "'i rendered \<Rightarrow> bool" where
  "empty_flag dataList =
     (case dataList of Falsy \<Rightarrow> False | Items xs \<Rightarrow> length xs = 0 | Element \<Rightarrow> True)"

definition Page ::
  "('v props \<Rightarrow> 'i rendered) \<Rightarrow> 'v props \<Rightarrow> ('v, 'f) hook_state
     \<Rightarrow> 'i rendered \<times> ('v, 'f) hook_state" where
  "Page pageFnRef p s =
     (let dataList = pageFnRef p
      in (dataList, s\<lparr>emptyPageRef := empty_flag dataList\<rparr>))"

subsection \<open>resetPages and loadMore\<close>

text \<open>
  \<open>resetPages\<close> is what the hook returns as the reset action, and what its effect
  \<open>useEffect(() => resetPages(), [resetPages])\<close> calls after mounting and whenever
  the keys change.
\<close>

definition resetPages :: "string \<Rightarrow> ('v, 'f) hook_state \<Rightarrow> ('v, 'f) hook_state" where
  "resetPages pageKey s =
     s\<lparr>pageSWRs := [],
       pageCount := 1,
       pageOffsets := [Null],
       cache := cache_set (pageOffsetKey pageKey) (COffsets [Null])
                  (cache_set (pageCountKey pageKey) (CCount 1) (cache s)),
       pageCacheMap := (pageCacheMap s)(pageKey \<mapsto> [])\<rparr>"

text \<open>
  \<open>loadMore\<close> is rebuilt by \<open>useCallback\<close> whenever one of the two flags changes; the
  flags it tests are those of the render that built it (\<open>seenLoadingMore\<close>,
  \<open>seenReachingEnd\<close>), while the updater \<open>c => c + 1\<close> reads the count that is
  current when it runs.
\<close>

definition loadMore ::
  "string \<Rightarrow> bool \<Rightarrow> bool \<Rightarrow> ('v, 'f) hook_state \<Rightarrow> ('v, 'f) hook_state" where
  "loadMore pageKey seenLoadingMore seenReachingEnd s =
     (if seenLoadingMore \<or> seenReachingEnd then s
      else let c = pageCount s
           in s\<lparr>pageCount := c + 1,
                cache := cache_set (pageCountKey pageKey) (CCount (c + 1)) (cache s)\<rparr>)"

subsection \<open>getWithSWR\<close>

text \<open>
  The test that guards the deferred update: nothing stored for the slot in the
  \<open>pageSWRs\<close> the closure has seen, or a stored result that differs from \<open>swr\<close> in
  \<open>data\<close>, \<open>error\<close> or \<open>revalidate\<close>.
\<close>

definition swr_changed :: "'v swr option list \<Rightarrow> nat \<Rightarrow> 'v swr \<Rightarrow> bool" where
  "swr_changed seen i swr =
     (case js_get None seen i of
        None \<Rightarrow> True
      | Some old \<Rightarrow>
          data old \<noteq> data swr \<or> error old \<noteq> error swr \<or> revalidate old \<noteq> revalidate swr)"

text \<open>
  The state after the \<open>setTimeout\<close> callback of \<open>getWithSWR(id)(swr)\<close> has run (the
  state itself when the guard fails and no callback is scheduled). \<open>setPageSWRs\<close>
  and \<open>setPageOffsets\<close> copy the current arrays; the new offset is compared with the
  \<open>pageOffsets\<close> the closure has seen. The two updates of one callback are taken as
  one step. The function returns \<open>swr\<close> to the page, which the model leaves out.
\<close>

definition getWithSWR ::
  "string \<Rightarrow> ('v swr \<Rightarrow> nat \<Rightarrow> 'v jsval) \<Rightarrow> 'v reporter \<Rightarrow> 'v swr
     \<Rightarrow> ('v, 'f) hook_state \<Rightarrow> ('v, 'f) hook_state" where
  "getWithSWR pageKey SWRToOffset r swr s =
     (let i = slot r in
      if swr_changed (seenSWRs r) i swr then
        let s1 = s\<lparr>pageSWRs :=
                    js_set None (pageSWRs s) i
                      (Some \<lparr>data = data swr, error = error swr, revalidate = revalidate swr,
                             isValidating = isValidating swr, mutate = mutate swr\<rparr>)\<rparr>
        in if data swr \<noteq> Undefined then
             let newPageOffset = SWRToOffset swr i
             in if js_get Undefined (seenOffsets r) (i + 1) \<noteq> newPageOffset then
                  let arr = js_set Undefined (pageOffsets s1) (i + 1) newPageOffset
                  in s1\<lparr>pageOffsets := arr,
                        cache := cache_set (pageOffsetKey pageKey) (COffsets arr) (cache s1)\<rparr>
                else s1
           else s1
      else s)"

subsection \<open>Rendering the pages\<close>

text \<open>
  The loop \<open>for (let i = 0; i < pageCount; ++i)\<close> over the page cache of the key: an
  entry is built when the slot has none, or when its offset or page function
  differs; otherwise the cached entry, with the reporter it was built with, is used
  again. \<open>n\<close> counts the iterations left. The array \<open>pageCache\<close> is the one held in
  \<open>pageCacheMap\<close>, so what the loop stores in it is stored in the map. \<open>useMemo\<close> runs
  the loop anew when the page function, \<open>pageCount\<close>, \<open>pageSWRs\<close>, \<open>pageOffsets\<close> or the
  key has changed; \<open>render_pages\<close> is one such run.
\<close>

fun pages_loop ::
  "'f \<Rightarrow> 'v swr option list \<Rightarrow> 'v jsval list \<Rightarrow> nat \<Rightarrow> nat
     \<Rightarrow> ('v, 'f) page_entry option list \<Rightarrow> 'v props list
     \<Rightarrow> ('v, 'f) page_entry option list \<times> 'v props list" where
  "pages_loop fn swrs offs 0 i pageCache p = (pageCache, p)"
| "pages_loop fn swrs offs (Suc n) i pageCache p =
     (let fresh = \<lparr>component =
                     \<lparr>key = (js_get Undefined offs i, i),
                      offset = js_get Undefined offs i,
                      withSWR = \<lparr>seenSWRs = swrs, seenOffsets = offs, slot = i\<rparr>\<rparr>,
                   pageFn = fn,
                   entry_offset = js_get Undefined offs i\<rparr>
      in case js_get None pageCache i of
           None \<Rightarrow>
             pages_loop fn swrs offs n (i + 1) (js_set None pageCache i (Some fresh))
               (p @ [component fresh])
         | Some e \<Rightarrow>
             if entry_offset e \<noteq> js_get Undefined offs i \<or> pageFn e \<noteq> fn then
               pages_loop fn swrs offs n (i + 1) (js_set None pageCache i (Some fresh))
                 (p @ [component fresh])
             else pages_loop fn swrs offs n (i + 1) pageCache (p @ [component e]))"

definition render_pages ::
  "'f \<Rightarrow> string \<Rightarrow> ('v, 'f) hook_state \<Rightarrow> 'v props list \<times> ('v, 'f) hook_state" where
  "render_pages fn pageKey s =
     (let pageCache = (case pageCacheMap s pageKey of None \<Rightarrow> [] | Some pc \<Rightarrow> pc);
          (pageCache', p) =
            pages_loop fn (pageSWRs s) (pageOffsets s) (pageCount s) 0 pageCache []
      in (p, s\<lparr>pageCacheMap := (pageCacheMap s)(pageKey \<mapsto> pageCache')\<rparr>))"

subsection \<open>Calls with a render in between\<close>

text \<open>
  A callback handed out by a render of the state \<open>s\<close> has seen the values of \<open>s\<close>:
  \<open>loadMore\<close> the two flags of \<open>s\<close>, a reporter the \<open>pageSWRs\<close> and \<open>pageOffsets\<close> of \<open>s\<close>.
  An action stands for a call made through such a callback, and \<open>run\<close> for a list
  of calls with a render of the hook before each of them. Calls through callbacks
  of earlier renders are the subject of \<open>replay\<close> further down.
\<close>

definition Reset :: "string \<Rightarrow> ('v, 'f) hook_state \<Rightarrow> ('v, 'f) hook_state" where
  "Reset pageKey s = resetPages pageKey s"

definition ReportFetchResult ::
  "string \<Rightarrow> ('v swr \<Rightarrow> nat \<Rightarrow> 'v jsval) \<Rightarrow> nat \<Rightarrow> 'v swr
     \<Rightarrow> ('v, 'f) hook_state \<Rightarrow> ('v, 'f) hook_state" where
  "ReportFetchResult pageKey SWRToOffset i swr s =
     getWithSWR pageKey SWRToOffset
       \<lparr>seenSWRs = pageSWRs s, seenOffsets = pageOffsets s, slot = i\<rparr> swr s"

datatype 'v action = DoLoadMore | DoReset | DoReport nat "'v swr"

fun perform ::
  "string \<Rightarrow> ('v swr \<Rightarrow> nat \<Rightarrow> 'v jsval) \<Rightarrow> ('v, 'f) hook_state \<Rightarrow> 'v action
     \<Rightarrow> ('v, 'f) hook_state" where
  "perform pageKey SWRToOffset s DoLoadMore =
     loadMore pageKey (isLoadingMore s) (isReachingEnd s) s"
| "perform pageKey SWRToOffset s DoReset = Reset pageKey s"
| "perform pageKey SWRToOffset s (DoReport i swr) =
     ReportFetchResult pageKey SWRToOffset i swr s"

definition run ::
  "string \<Rightarrow> ('v swr \<Rightarrow> nat \<Rightarrow> 'v jsval) \<Rightarrow> ('v, 'f) hook_state \<Rightarrow> 'v action list
     \<Rightarrow> ('v, 'f) hook_state" where
  "run pageKey SWRToOffset s as = foldl (perform pageKey SWRToOffset) s as"

text \<open>
  Calls through callbacks of any render, with or without a render in between: each
  call carries what its callback has seen.
\<close>

datatype 'v call = CallLoadMore bool bool | CallReset | CallReport "'v reporter" "'v swr"

fun apply_call ::
  "string \<Rightarrow> ('v swr \<Rightarrow> nat \<Rightarrow> 'v jsval) \<Rightarrow> ('v, 'f) hook_state \<Rightarrow> 'v call
     \<Rightarrow> ('v, 'f) hook_state" where
  "apply_call pageKey SWRToOffset s (CallLoadMore seenLoadingMore seenReachingEnd) =
     loadMore pageKey seenLoadingMore seenReachingEnd s"
| "apply_call pageKey SWRToOffset s CallReset = resetPages pageKey s"
| "apply_call pageKey SWRToOffset s (CallReport r swr) =
     getWithSWR pageKey SWRToOffset r swr s"

definition replay ::
  "string \<Rightarrow> ('v swr \<Rightarrow> nat \<Rightarrow> 'v jsval) \<Rightarrow> ('v, 'f) hook_state \<Rightarrow> 'v call list
     \<Rightarrow> ('v, 'f) hook_state" where
  "replay pageKey SWRToOffset s cs = foldl (apply_call pageKey SWRToOffset) s cs"

text \<open>The state of a controller that finds nothing persisted.\<close>

definition default_state :: "string \<Rightarrow> ('v, 'f) hook_state" where
  "default_state pageKey = useSWRPages_init pageKey [] Map.empty"

subsection \<open>Example inputs\<close>


definition full_page :: "string swr" where
  "full_page =
     \<lparr>data = Val ''ten projects'', error = Undefined, revalidate = Val ''revalidate-0'',
      isValidating = False, mutate = Val ''mutate-0''\<rparr>"

definition short_page :: "string swr" where
  "short_page =
     \<lparr>data = Val ''three projects'', error = Undefined, revalidate = Val ''revalidate-0'',
      isValidating = False, mutate = Val ''mutate-0''\<rparr>"

definition revalidating_page :: "string swr" where
  "revalidating_page =
     \<lparr>data = Val ''ten projects'', error = Undefined, revalidate = Val ''revalidate-0'',
      isValidating = True, mutate = Val ''mutate-0''\<rparr>"

definition failed_page :: "string swr" where
  "failed_page =
     \<lparr>data = Val ''ten projects'', error = Val ''timeout'', revalidate = Val ''revalidate-0'',
      isValidating = False, mutate = Val ''mutate-0''\<rparr>"

definition next_offset :: "string swr \<Rightarrow> nat \<Rightarrow> string jsval" where
  "next_offset x i = (if data x = Val ''ten projects'' then Val ''c1'' else Null)"

definition fresh_state :: "(string, nat) hook_state" where
  "fresh_state = default_state ''projects''"

text \<open>The state after the first page has come back full, and after it has come back short.\<close>

definition one_page_loaded :: "(string, nat) hook_state" where
  "one_page_loaded =
     fresh_state\<lparr>pageSWRs := [Some full_page], pageOffsets := [Null, Val ''c1''],
       cache := [(pageOffsetKey ''projects'', COffsets [Null, Val ''c1''])]\<rparr>"

definition at_end :: "(string, nat) hook_state" where
  "at_end =
     fresh_state\<lparr>pageSWRs := [Some short_page], pageOffsets := [Null, Null],
       cache := [(pageOffsetKey ''projects'', COffsets [Null, Null])]\<rparr>"

definition first_page_props :: "string props" where
  "first_page_props =
     \<lparr>key = (Null, 0), offset = Null,
      withSWR = \<lparr>seenSWRs = [], seenOffsets = [Null], slot = 0\<rparr>\<rparr>"

text \<open>
  The first page is rendered, reports a full page through the reporter in its
  props, and is rendered again.
\<close>

definition rendered_once :: "(string, nat) hook_state" where
  "rendered_once = snd (render_pages 0 ''projects'' fresh_state)"

definition reported_once :: "(string, nat) hook_state" where
  "reported_once =
     getWithSWR ''projects'' next_offset (withSWR first_page_props) full_page rendered_once"

definition rendered_twice :: "(string, nat) hook_state" where
  "rendered_twice = snd (render_pages 0 ''projects'' reported_once)"

text \<open>
  The page function then changes (its dependencies have changed), so the next
  render builds the element of the first page anew, with a reporter that has seen
  the full page and its offset. Through that reporter the page reports that it has
  fallen short.
\<close>

definition second_page_props :: "string props" where
  "second_page_props =
     \<lparr>key = (Null, 0), offset = Null,
      withSWR = \<lparr>seenSWRs = [Some full_page], seenOffsets = [Null, Val ''c1''], slot = 0\<rparr>\<rparr>"

definition rebuilt :: "(string, nat) hook_state" where
  "rebuilt = snd (render_pages 1 ''projects'' reported_once)"

definition fallen_short :: "(string, nat) hook_state" where
  "fallen_short =
     getWithSWR ''projects'' next_offset (withSWR second_page_props) short_page rebuilt"

text \<open>A page function that returns one placeholder element.\<close>

definition placeholder_page :: "string props \<Rightarrow> string rendered" where
  "placeholder_page p = Element"

section \<open>Properties\<close>

subsection \<open>Keys, the store, arrays and the example states\<close>

lemma keys_distinct: "pageCountKey pageKey \<noteq> pageOffsetKey pageKey"
  by (simp add: pageCountKey_def pageOffsetKey_def)

lemma cache_get_set:
  "cache_get (cache_set k v c) k' = (if k' = k then Some v else cache_get c k')"
  by (simp add: cache_get_def cache_set_def)

lemma js_get_js_set:
  "js_get h (js_set h xs i v) j = (if j = i then v else js_get h xs j)"
  by (auto simp: js_get_def js_set_def nth_append nth_list_update)

lemma js_set_keeps_head:
  "js_set h (a # ys) (Suc i) v = a # js_set h ys i v"
  by (simp add: js_set_def)

lemma default_state_simps:
  "pageCount (default_state k) = 1"
  "pageOffsets (default_state k) = [Null]"
  "pageSWRs (default_state k) = []"
  "emptyPageRef (default_state k) = False"
  "cache (default_state k) = []"
  "pageCacheMap (default_state k) = Map.empty"
  by (simp_all add: default_state_def useSWRPages_init_def cache_get_def)

lemma fresh_state_simps:
  "pageCount fresh_state = 1"
  "pageOffsets fresh_state = [Null]"
  "pageSWRs fresh_state = []"
  "emptyPageRef fresh_state = False"
  "cache fresh_state = []"
  "pageCacheMap fresh_state = Map.empty"
  by (simp_all add: fresh_state_def default_state_simps)

lemma one_page_loaded_simps:
  "pageCount one_page_loaded = 1"
  "pageOffsets one_page_loaded = [Null, Val ''c1'']"
  "pageSWRs one_page_loaded = [Some full_page]"
  "emptyPageRef one_page_loaded = False"
  "cache one_page_loaded = [(pageOffsetKey ''projects'', COffsets [Null, Val ''c1''])]"
  "pageCacheMap one_page_loaded = Map.empty"
  by (simp_all add: one_page_loaded_def fresh_state_simps)

lemma at_end_simps:
  "pageCount at_end = 1"
  "pageOffsets at_end = [Null, Null]"
  "pageSWRs at_end = [Some short_page]"
  "emptyPageRef at_end = False"
  "cache at_end = [(pageOffsetKey ''projects'', COffsets [Null, Null])]"
  "pageCacheMap at_end = Map.empty"
  by (simp_all add: at_end_def fresh_state_simps)

subsection \<open>Sequences of LoadMore\<close>

lemma loadMore_pageOffsets:
  "pageOffsets (loadMore k a b s) = pageOffsets s"
  by (simp add: loadMore_def Let_def)

lemma loadMore_rendered_bound:
  "pageCount s \<le> Suc (length (pageOffsets s)) \<Longrightarrow>
   pageCount (loadMore k (isLoadingMore s) (isReachingEnd s) s)
     \<le> Suc (length (pageOffsets (loadMore k (isLoadingMore s) (isReachingEnd s) s)))"
  by (auto simp: loadMore_def isLoadingMore_def Let_def)

lemma run_loadMore_bound:
  "pageCount s \<le> Suc (length (pageOffsets s)) \<Longrightarrow>
   pageCount (run k f s (replicate n DoLoadMore))
     \<le> Suc (length (pageOffsets (run k f s (replicate n DoLoadMore))))"
  unfolding run_def
proof (induction n arbitrary: s)
  case 0
  then show ?case by simp
next
  case (Suc n)
  from Suc.prems
  have "pageCount (loadMore k (isLoadingMore s) (isReachingEnd s) s)
          \<le> Suc (length (pageOffsets (loadMore k (isLoadingMore s) (isReachingEnd s) s)))"
    by (rule loadMore_rendered_bound)
  then show ?case
    using Suc.IH by simp
qed

lemma replay_same_loadMore_open:
  "pageCount (replay k f s (replicate n (CallLoadMore False False))) = pageCount s + n
   \<and> pageOffsets (replay k f s (replicate n (CallLoadMore False False))) = pageOffsets s"
  unfolding replay_def
proof (induction n arbitrary: s)
  case 0
  then show ?case by simp
next
  case (Suc n)
  have "pageCount (loadMore k False False s) = pageCount s + 1"
    "pageOffsets (loadMore k False False s) = pageOffsets s"
    by (simp_all add: loadMore_def Let_def)
  then show ?case
    using Suc.IH [of "loadMore k False False s"] by simp
qed

lemma replay_same_loadMore_shut:
  "a \<or> b \<Longrightarrow> replay k f s (replicate n (CallLoadMore a b)) = s"
  unfolding replay_def
  by (induction n) (simp_all add: loadMore_def)

text \<open>
  C1, where the code differs. The guard of \<open>loadMore\<close> tests the flags of the render
  that built the callback. In the default state both are false; the callback of
  that render, called twice with no render in between, passes its guard twice:
  \<open>pageCount\<close> is 3 while \<open>pageOffsets\<close> still is \<open>[null]\<close>, beyond
  \<open>pageOffsets.length + 1\<close>.
\<close>

theorem loadMore_twice_exceeds_bound:
  "pageCount fresh_state \<le> length (pageOffsets fresh_state) + 1
   \<and> pageCount
        (replay ''projects'' next_offset fresh_state
           [CallLoadMore (isLoadingMore fresh_state) (isReachingEnd fresh_state),
            CallLoadMore (isLoadingMore fresh_state) (isReachingEnd fresh_state)]) = 3
   \<and> pageOffsets
        (replay ''projects'' next_offset fresh_state
           [CallLoadMore (isLoadingMore fresh_state) (isReachingEnd fresh_state),
            CallLoadMore (isLoadingMore fresh_state) (isReachingEnd fresh_state)]) = [Null]
   \<and> \<not> pageCount
          (replay ''projects'' next_offset fresh_state
             [CallLoadMore (isLoadingMore fresh_state) (isReachingEnd fresh_state),
              CallLoadMore (isLoadingMore fresh_state) (isReachingEnd fresh_state)])
        \<le> length (pageOffsets
            (replay ''projects'' next_offset fresh_state
               [CallLoadMore (isLoadingMore fresh_state) (isReachingEnd fresh_state),
                CallLoadMore (isLoadingMore fresh_state) (isReachingEnd fresh_state)])) + 1"
  by (simp add: replay_def loadMore_def isLoadingMore_def isReachingEnd_def js_get_def
      fresh_state_simps Let_def)

text \<open>
  C1, as amended. Along every sequence of \<open>LoadMore\<close> calls with a render of the
  hook before each call, so that each call goes through the \<open>loadMore\<close> built from
  the state it is applied to, and with no fetch completing in between, every state
  has \<open>pageCount \<le> pageOffsets.length + 1\<close>, provided the first one has (the default
  state has); and \<open>isLoadingMore\<close> is true exactly when
  \<open>pageCount > pageOffsets.length\<close>. Calls of one and the same \<open>loadMore\<close>, with no
  render in between, all pass its guard or all fail it: \<open>n\<close> calls of a callback
  that has seen both flags false add \<open>n\<close> to \<open>pageCount\<close> and leave \<open>pageOffsets\<close> as
  it is, and calls of a callback that has seen a flag true change nothing.
\<close>

theorem loadMore_sequence_bound:
  "(pageCount s \<le> length (pageOffsets s) + 1 \<longrightarrow>
      pageCount (run pageKey SWRToOffset s (replicate n DoLoadMore))
        \<le> length (pageOffsets (run pageKey SWRToOffset s (replicate n DoLoadMore))) + 1)
   \<and> (isLoadingMore (run pageKey SWRToOffset s (replicate n DoLoadMore))
        \<longleftrightarrow> pageCount (run pageKey SWRToOffset s (replicate n DoLoadMore))
              > length (pageOffsets (run pageKey SWRToOffset s (replicate n DoLoadMore))))
   \<and> (\<not> seenLoadingMore \<and> \<not> seenReachingEnd \<longrightarrow>
        pageCount (replay pageKey SWRToOffset s
            (replicate n (CallLoadMore seenLoadingMore seenReachingEnd))) = pageCount s + n
        \<and> pageOffsets (replay pageKey SWRToOffset s
            (replicate n (CallLoadMore seenLoadingMore seenReachingEnd))) = pageOffsets s)
   \<and> (seenLoadingMore \<or> seenReachingEnd \<longrightarrow>
        replay pageKey SWRToOffset s
          (replicate n (CallLoadMore seenLoadingMore seenReachingEnd)) = s)"
proof -
  have 1: "pageCount s \<le> length (pageOffsets s) + 1 \<longrightarrow>
      pageCount (run pageKey SWRToOffset s (replicate n DoLoadMore))
        \<le> length (pageOffsets (run pageKey SWRToOffset s (replicate n DoLoadMore))) + 1"
    using run_loadMore_bound [of s pageKey SWRToOffset n] by simp
  have 2: "isLoadingMore (run pageKey SWRToOffset s (replicate n DoLoadMore))
        \<longleftrightarrow> pageCount (run pageKey SWRToOffset s (replicate n DoLoadMore))
              > length (pageOffsets (run pageKey SWRToOffset s (replicate n DoLoadMore)))"
    by (simp add: isLoadingMore_def)
  have 3: "\<not> seenLoadingMore \<and> \<not> seenReachingEnd \<longrightarrow>
        pageCount (replay pageKey SWRToOffset s
            (replicate n (CallLoadMore seenLoadingMore seenReachingEnd))) = pageCount s + n
        \<and> pageOffsets (replay pageKey SWRToOffset s
            (replicate n (CallLoadMore seenLoadingMore seenReachingEnd))) = pageOffsets s"
    using replay_same_loadMore_open [of pageKey SWRToOffset s n] by simp
  have 4: "seenLoadingMore \<or> seenReachingEnd \<longrightarrow>
        replay pageKey SWRToOffset s
          (replicate n (CallLoadMore seenLoadingMore seenReachingEnd)) = s"
    using replay_same_loadMore_shut [of seenLoadingMore seenReachingEnd pageKey SWRToOffset s n]
    by blast
  from 1 2 3 4 show ?thesis by blast
qed

theorem loadMore_sequence_bound_witness:
  "pageCount fresh_state \<le> length (pageOffsets fresh_state) + 1
   \<and> pageCount (run ''projects'' next_offset fresh_state (replicate 3 DoLoadMore))
       \<le> length (pageOffsets (run ''projects'' next_offset fresh_state (replicate 3 DoLoadMore)))
           + 1
   \<and> pageCount (run ''projects'' next_offset fresh_state (replicate 3 DoLoadMore)) = 2
   \<and> isLoadingMore (run ''projects'' next_offset fresh_state (replicate 3 DoLoadMore))
   \<and> pageCount (replay ''projects'' next_offset fresh_state
        (replicate 3 (CallLoadMore False False))) = pageCount fresh_state + 3
   \<and> replay ''projects'' next_offset fresh_state (replicate 3 (CallLoadMore True False))
       = fresh_state"
proof -
  have h: "pageCount fresh_state \<le> length (pageOffsets fresh_state) + 1"
    by (simp add: fresh_state_simps)
  have e: "pageCount (run ''projects'' next_offset fresh_state (replicate 3 DoLoadMore)) = 2"
    "pageOffsets (run ''projects'' next_offset fresh_state (replicate 3 DoLoadMore)) = [Null]"
    by (simp_all add: numeral_3_eq_3 run_def loadMore_def isLoadingMore_def isReachingEnd_def
        js_get_def fresh_state_simps Let_def)
  note t = loadMore_sequence_bound [where s = fresh_state and pageKey = "''projects''"
      and SWRToOffset = next_offset and n = 3 and seenLoadingMore = False
      and seenReachingEnd = False]
  note u = loadMore_sequence_bound [where s = fresh_state and pageKey = "''projects''"
      and SWRToOffset = next_offset and n = 3 and seenLoadingMore = True
      and seenReachingEnd = False]
  from t h have a: "pageCount (run ''projects'' next_offset fresh_state (replicate 3 DoLoadMore))
       \<le> length (pageOffsets (run ''projects'' next_offset fresh_state (replicate 3 DoLoadMore)))
           + 1"
    by blast
  from t have b: "isLoadingMore (run ''projects'' next_offset fresh_state (replicate 3 DoLoadMore))
        \<longleftrightarrow> pageCount (run ''projects'' next_offset fresh_state (replicate 3 DoLoadMore))
              > length (pageOffsets (run ''projects'' next_offset fresh_state
                  (replicate 3 DoLoadMore)))"
    by blast
  from b e have c: "isLoadingMore (run ''projects'' next_offset fresh_state (replicate 3 DoLoadMore))"
    by simp
  from t have d: "pageCount (replay ''projects'' next_offset fresh_state
        (replicate 3 (CallLoadMore False False))) = pageCount fresh_state + 3"
    by blast
  from u have f: "replay ''projects'' next_offset fresh_state (replicate 3 (CallLoadMore True False))
       = fresh_state"
    by blast
  from h a e(1) c d f show ?thesis by blast
qed

subsection \<open>The guard of loadMore\<close>

lemma loadMore_rendered_twice:
  assumes "pageCount s = length (pageOffsets s)"
  shows "pageCount (loadMore k (isLoadingMore s) (isReachingEnd s) s) = pageCount s + 1"
    and "isLoadingMore (loadMore k (isLoadingMore s) (isReachingEnd s) s)"
proof -
  have a: "\<not> isLoadingMore s" "\<not> isReachingEnd s"
    using assms by (simp_all add: isLoadingMore_def isReachingEnd_def js_get_def)
  show b: "pageCount (loadMore k (isLoadingMore s) (isReachingEnd s) s) = pageCount s + 1"
    using a by (simp add: loadMore_def Let_def)
  have "pageOffsets (loadMore k (isLoadingMore s) (isReachingEnd s) s) = pageOffsets s"
    by (simp add: loadMore_pageOffsets)
  then show "isLoadingMore (loadMore k (isLoadingMore s) (isReachingEnd s) s)"
    using b assms by (simp add: isLoadingMore_def)
qed

text \<open>
  C2, where the code differs. In the default state, with the first fetch not yet
  resolved, two calls of the \<open>loadMore\<close> that the render of that state has built
  raise \<open>pageCount\<close> by 2, not by 1, and write the count to the store twice: the
  second call tests the flags that the callback has seen, both false, not those of
  the state the first call has left.
\<close>

theorem loadMore_same_callback_twice:
  "pageCount fresh_state = length (pageOffsets fresh_state)
   \<and> pageCount
        (loadMore ''projects'' (isLoadingMore fresh_state) (isReachingEnd fresh_state)
           (loadMore ''projects'' (isLoadingMore fresh_state) (isReachingEnd fresh_state)
              fresh_state))
       = pageCount fresh_state + 2
   \<and> cache
        (loadMore ''projects'' (isLoadingMore fresh_state) (isReachingEnd fresh_state)
           (loadMore ''projects'' (isLoadingMore fresh_state) (isReachingEnd fresh_state)
              fresh_state))
       = [(pageCountKey ''projects'', CCount 3), (pageCountKey ''projects'', CCount 2)]"
  by (simp add: loadMore_def isLoadingMore_def isReachingEnd_def js_get_def fresh_state_simps
      cache_set_def Let_def)

text \<open>
  C2, as amended. \<open>loadMore\<close> leaves the state as it is, with nothing written to the
  store, when the \<open>isLoadingMore\<close> or the \<open>isReachingEnd\<close> that its render has seen
  is true; otherwise it adds one to \<open>pageCount\<close> and writes the new count under
  the page-count key. In a state where the last requested page has not produced
  its offset yet (\<open>pageCount = pageOffsets.length\<close>, as in the default state), two
  calls with a render in between, each through the \<open>loadMore\<close> built from the state
  it is applied to, raise \<open>pageCount\<close> by one: the second call changes nothing. Two
  calls of one \<open>loadMore\<close> that has seen both flags false, with no render in
  between, raise \<open>pageCount\<close> by two and write the count twice.
\<close>

theorem loadMore_guard_and_increment:
  "(seenLoadingMore \<or> seenReachingEnd \<longrightarrow>
      loadMore pageKey seenLoadingMore seenReachingEnd s = s)
   \<and> (\<not> seenLoadingMore \<and> \<not> seenReachingEnd \<longrightarrow>
      loadMore pageKey seenLoadingMore seenReachingEnd s
        = s\<lparr>pageCount := pageCount s + 1,
             cache := cache_set (pageCountKey pageKey) (CCount (pageCount s + 1)) (cache s)\<rparr>
      \<and> cache_get (cache (loadMore pageKey seenLoadingMore seenReachingEnd s))
            (pageCountKey pageKey) = Some (CCount (pageCount s + 1)))
   \<and> (pageCount s = length (pageOffsets s) \<longrightarrow>
      pageCount (loadMore pageKey (isLoadingMore s) (isReachingEnd s) s) = pageCount s + 1
      \<and> loadMore pageKey
            (isLoadingMore (loadMore pageKey (isLoadingMore s) (isReachingEnd s) s))
            (isReachingEnd (loadMore pageKey (isLoadingMore s) (isReachingEnd s) s))
            (loadMore pageKey (isLoadingMore s) (isReachingEnd s) s)
          = loadMore pageKey (isLoadingMore s) (isReachingEnd s) s)
   \<and> (\<not> seenLoadingMore \<and> \<not> seenReachingEnd \<longrightarrow>
      pageCount (loadMore pageKey seenLoadingMore seenReachingEnd
                   (loadMore pageKey seenLoadingMore seenReachingEnd s)) = pageCount s + 2
      \<and> cache (loadMore pageKey seenLoadingMore seenReachingEnd
                   (loadMore pageKey seenLoadingMore seenReachingEnd s))
          = cache_set (pageCountKey pageKey) (CCount (pageCount s + 2))
              (cache_set (pageCountKey pageKey) (CCount (pageCount s + 1)) (cache s)))"
proof -
  have 1: "seenLoadingMore \<or> seenReachingEnd \<longrightarrow>
      loadMore pageKey seenLoadingMore seenReachingEnd s = s"
    by (simp add: loadMore_def)
  have 2: "\<not> seenLoadingMore \<and> \<not> seenReachingEnd \<longrightarrow>
      loadMore pageKey seenLoadingMore seenReachingEnd s
        = s\<lparr>pageCount := pageCount s + 1,
             cache := cache_set (pageCountKey pageKey) (CCount (pageCount s + 1)) (cache s)\<rparr>
      \<and> cache_get (cache (loadMore pageKey seenLoadingMore seenReachingEnd s))
            (pageCountKey pageKey) = Some (CCount (pageCount s + 1))"
    by (simp add: loadMore_def Let_def cache_get_set)
  have 3: "pageCount s = length (pageOffsets s) \<longrightarrow>
      pageCount (loadMore pageKey (isLoadingMore s) (isReachingEnd s) s) = pageCount s + 1
      \<and> loadMore pageKey
            (isLoadingMore (loadMore pageKey (isLoadingMore s) (isReachingEnd s) s))
            (isReachingEnd (loadMore pageKey (isLoadingMore s) (isReachingEnd s) s))
            (loadMore pageKey (isLoadingMore s) (isReachingEnd s) s)
          = loadMore pageKey (isLoadingMore s) (isReachingEnd s) s"
  proof
    assume a: "pageCount s = length (pageOffsets s)"
    note b = loadMore_rendered_twice [OF a, of pageKey]
    from b(2) have "loadMore pageKey
            (isLoadingMore (loadMore pageKey (isLoadingMore s) (isReachingEnd s) s))
            (isReachingEnd (loadMore pageKey (isLoadingMore s) (isReachingEnd s) s))
            (loadMore pageKey (isLoadingMore s) (isReachingEnd s) s)
          = loadMore pageKey (isLoadingMore s) (isReachingEnd s) s"
      by (simp add: loadMore_def)
    with b(1) show "pageCount (loadMore pageKey (isLoadingMore s) (isReachingEnd s) s)
          = pageCount s + 1
      \<and> loadMore pageKey
            (isLoadingMore (loadMore pageKey (isLoadingMore s) (isReachingEnd s) s))
            (isReachingEnd (loadMore pageKey (isLoadingMore s) (isReachingEnd s) s))
            (loadMore pageKey (isLoadingMore s) (isReachingEnd s) s)
          = loadMore pageKey (isLoadingMore s) (isReachingEnd s) s"
      by blast
  qed
  have 4: "\<not> seenLoadingMore \<and> \<not> seenReachingEnd \<longrightarrow>
      pageCount (loadMore pageKey seenLoadingMore seenReachingEnd
                   (loadMore pageKey seenLoadingMore seenReachingEnd s)) = pageCount s + 2
      \<and> cache (loadMore pageKey seenLoadingMore seenReachingEnd
                   (loadMore pageKey seenLoadingMore seenReachingEnd s))
          = cache_set (pageCountKey pageKey) (CCount (pageCount s + 2))
              (cache_set (pageCountKey pageKey) (CCount (pageCount s + 1)) (cache s))"
    by (simp add: loadMore_def Let_def)
  from 1 2 3 4 show ?thesis by blast
qed

theorem loadMore_guard_and_increment_witness:
  "pageCount fresh_state = length (pageOffsets fresh_state)
   \<and> loadMore ''projects'' True False fresh_state = fresh_state
   \<and> loadMore ''projects'' False False fresh_state
       = fresh_state\<lparr>pageCount := 2, cache := [(pageCountKey ''projects'', CCount 2)]\<rparr>
   \<and> cache_get (cache (loadMore ''projects'' False False fresh_state)) (pageCountKey ''projects'')
       = Some (CCount 2)
   \<and> pageCount (loadMore ''projects'' (isLoadingMore fresh_state) (isReachingEnd fresh_state)
        fresh_state) = 2
   \<and> loadMore ''projects''
        (isLoadingMore (loadMore ''projects'' (isLoadingMore fresh_state)
           (isReachingEnd fresh_state) fresh_state))
        (isReachingEnd (loadMore ''projects'' (isLoadingMore fresh_state)
           (isReachingEnd fresh_state) fresh_state))
        (loadMore ''projects'' (isLoadingMore fresh_state) (isReachingEnd fresh_state)
           fresh_state)
       = loadMore ''projects'' (isLoadingMore fresh_state) (isReachingEnd fresh_state) fresh_state
   \<and> pageCount (loadMore ''projects'' False False (loadMore ''projects'' False False fresh_state))
       = 3"
proof -
  have h: "pageCount fresh_state = length (pageOffsets fresh_state)"
    by (simp add: fresh_state_simps)
  have n: "pageCount fresh_state + 1 = 2" "pageCount fresh_state + 2 = 3"
    "cache_set (pageCountKey ''projects'') (CCount 2) (cache fresh_state)
       = [(pageCountKey ''projects'', CCount 2)]"
    by (simp_all add: fresh_state_simps cache_set_def)
  note t = loadMore_guard_and_increment [where s = fresh_state and pageKey = "''projects''"
      and seenLoadingMore = True and seenReachingEnd = False]
  note u = loadMore_guard_and_increment [where s = fresh_state and pageKey = "''projects''"
      and seenLoadingMore = False and seenReachingEnd = False]
  from t have a: "loadMore ''projects'' True False fresh_state = fresh_state"
    by blast
  from u have b: "loadMore ''projects'' False False fresh_state
        = fresh_state\<lparr>pageCount := pageCount fresh_state + 1,
             cache := cache_set (pageCountKey ''projects'') (CCount (pageCount fresh_state + 1))
                        (cache fresh_state)\<rparr>"
    "cache_get (cache (loadMore ''projects'' False False fresh_state)) (pageCountKey ''projects'')
       = Some (CCount (pageCount fresh_state + 1))"
    "pageCount (loadMore ''projects'' False False (loadMore ''projects'' False False fresh_state))
       = pageCount fresh_state + 2"
    by blast+
  from t h have c:
    "pageCount (loadMore ''projects'' (isLoadingMore fresh_state) (isReachingEnd fresh_state)
        fresh_state) = pageCount fresh_state + 1"
    "loadMore ''projects''
        (isLoadingMore (loadMore ''projects'' (isLoadingMore fresh_state)
           (isReachingEnd fresh_state) fresh_state))
        (isReachingEnd (loadMore ''projects'' (isLoadingMore fresh_state)
           (isReachingEnd fresh_state) fresh_state))
        (loadMore ''projects'' (isLoadingMore fresh_state) (isReachingEnd fresh_state)
           fresh_state)
       = loadMore ''projects'' (isLoadingMore fresh_state) (isReachingEnd fresh_state) fresh_state"
    by blast+
  note e = b [unfolded n] c(1) [unfolded n]
  from h a e c(2) show ?thesis by blast
qed

subsection \<open>What getWithSWR writes\<close>

lemma getWithSWR_unchanged:
  "\<not> swr_changed (seenSWRs r) (slot r) x \<Longrightarrow> getWithSWR k f r x s = s"
  by (simp add: getWithSWR_def)

lemma getWithSWR_frame:
  "pageCount (getWithSWR k f r x s) = pageCount s"
  "emptyPageRef (getWithSWR k f r x s) = emptyPageRef s"
  "pageCacheMap (getWithSWR k f r x s) = pageCacheMap s"
  by (simp_all add: getWithSWR_def Let_def)

lemma getWithSWR_pageOffsets:
  "pageOffsets (getWithSWR k f r x s) =
     (if swr_changed (seenSWRs r) (slot r) x \<and> data x \<noteq> Undefined
         \<and> js_get Undefined (seenOffsets r) (slot r + 1) \<noteq> f x (slot r)
      then js_set Undefined (pageOffsets s) (slot r + 1) (f x (slot r))
      else pageOffsets s)"
  by (simp add: getWithSWR_def Let_def)

lemma getWithSWR_cache:
  "cache (getWithSWR k f r x s) =
     (if swr_changed (seenSWRs r) (slot r) x \<and> data x \<noteq> Undefined
         \<and> js_get Undefined (seenOffsets r) (slot r + 1) \<noteq> f x (slot r)
      then cache_set (pageOffsetKey k)
             (COffsets (js_set Undefined (pageOffsets s) (slot r + 1) (f x (slot r)))) (cache s)
      else cache s)"
  by (simp add: getWithSWR_def Let_def)

lemma getWithSWR_pageSWRs:
  "pageSWRs (getWithSWR k f r x s) =
     (if swr_changed (seenSWRs r) (slot r) x
      then js_set None (pageSWRs s) (slot r) (Some x)
      else pageSWRs s)"
  by (cases x) (simp add: getWithSWR_def Let_def)

lemma getWithSWR_other_offsets:
  "j \<noteq> slot r + 1 \<Longrightarrow>
   js_get Undefined (pageOffsets (getWithSWR k f r x s)) j = js_get Undefined (pageOffsets s) j"
  by (simp add: getWithSWR_pageOffsets js_get_js_set)

lemma getWithSWR_other_swrs:
  "j \<noteq> slot r \<Longrightarrow>
   js_get None (pageSWRs (getWithSWR k f r x s)) j = js_get None (pageSWRs s) j"
  by (simp add: getWithSWR_pageSWRs js_get_js_set)

lemma getWithSWR_other_keys:
  "key' \<noteq> pageOffsetKey k \<Longrightarrow>
   cache_get (cache (getWithSWR k f r x s)) key' = cache_get (cache s) key'"
  by (simp add: getWithSWR_cache cache_get_set)

lemma getWithSWR_one_write:
  "cache (getWithSWR k f r x s) = cache s
   \<or> (\<exists>arr. cache (getWithSWR k f r x s) = cache_set (pageOffsetKey k) (COffsets arr) (cache s))"
  by (auto simp: getWithSWR_cache)

lemma ReportFetchResult_unchanged:
  "\<not> swr_changed (pageSWRs s) i x \<Longrightarrow> ReportFetchResult k f i x s = s"
  by (simp add: ReportFetchResult_def getWithSWR_unchanged)

lemma report_full_page:
  "ReportFetchResult ''projects'' next_offset 0 full_page fresh_state = one_page_loaded"
  by (simp add: ReportFetchResult_def getWithSWR_def swr_changed_def js_get_def js_set_def
      fresh_state_simps full_page_def next_offset_def Let_def one_page_loaded_def cache_set_def)


lemma report_short_after_full:
  "ReportFetchResult ''projects'' next_offset 0 short_page one_page_loaded
     = one_page_loaded\<lparr>pageSWRs := [Some short_page], pageOffsets := [Null, Null],
         cache := [(pageOffsetKey ''projects'', COffsets [Null, Null]),
                   (pageOffsetKey ''projects'', COffsets [Null, Val ''c1''])]\<rparr>"
  by (simp add: ReportFetchResult_def getWithSWR_def swr_changed_def js_get_def js_set_def
      one_page_loaded_simps short_page_def full_page_def next_offset_def Let_def cache_set_def)

lemma getWithSWR_sets_next_cursor:
  "(swr_changed (seenSWRs r) (slot r) x \<and> data x \<noteq> Undefined
      \<and> js_get Undefined (seenOffsets r) (slot r + 1) \<noteq> f x (slot r) \<longrightarrow>
        pageOffsets (getWithSWR k f r x s)
          = js_set Undefined (pageOffsets s) (slot r + 1) (f x (slot r))
        \<and> js_get Undefined (pageOffsets (getWithSWR k f r x s)) (slot r + 1) = f x (slot r)
        \<and> cache (getWithSWR k f r x s)
          = cache_set (pageOffsetKey k) (COffsets (pageOffsets (getWithSWR k f r x s))) (cache s))
   \<and> (swr_changed (seenSWRs r) (slot r) x \<and> data x \<noteq> Undefined
      \<and> js_get Undefined (seenOffsets r) (slot r + 1) = f x (slot r) \<longrightarrow>
        pageOffsets (getWithSWR k f r x s) = pageOffsets s
        \<and> cache (getWithSWR k f r x s) = cache s)
   \<and> (data x = Undefined \<longrightarrow>
        pageOffsets (getWithSWR k f r x s) = pageOffsets s
        \<and> cache (getWithSWR k f r x s) = cache s)"
  by (simp add: getWithSWR_pageOffsets getWithSWR_cache js_get_js_set)

subsection \<open>A page rendered from the page cache\<close>

text \<open>
  The first render builds the element of the first page; its reporter has seen
  \<open>pageSWRs = []\<close> and \<open>pageOffsets = [null]\<close>. After the page has reported, the next
  render finds the element in the page cache, with the same offset and page
  function, and uses it again: the page still holds the reporter of the first
  render. The same happens to an element built later: as long as the offset of its
  slot and the page function stay as they are, the page keeps the reporter it was
  built with, whatever has been stored since.
\<close>

lemma render_fresh:
  "render_pages 0 ''projects'' fresh_state
     = ([first_page_props],
        fresh_state\<lparr>pageCacheMap := [''projects'' \<mapsto>
           [Some \<lparr>component = first_page_props, pageFn = 0, entry_offset = Null\<rparr>]]\<rparr>)"
  by (simp add: render_pages_def fresh_state_simps js_get_def js_set_def first_page_props_def Let_def)

lemma rendered_once_simps:
  "pageCount rendered_once = 1"
  "pageOffsets rendered_once = [Null]"
  "pageSWRs rendered_once = []"
  "emptyPageRef rendered_once = False"
  "cache rendered_once = []"
  "pageCacheMap rendered_once = [''projects'' \<mapsto>
     [Some \<lparr>component = first_page_props, pageFn = 0, entry_offset = Null\<rparr>]]"
  by (simp_all add: rendered_once_def render_fresh fresh_state_simps)

lemma reported_once_simps:
  "pageCount reported_once = 1"
  "pageOffsets reported_once = [Null, Val ''c1'']"
  "pageSWRs reported_once = [Some full_page]"
  "emptyPageRef reported_once = False"
  "cache reported_once = [(pageOffsetKey ''projects'', COffsets [Null, Val ''c1''])]"
  "pageCacheMap reported_once = [''projects'' \<mapsto>
     [Some \<lparr>component = first_page_props, pageFn = 0, entry_offset = Null\<rparr>]]"
  by (simp_all add: reported_once_def getWithSWR_frame getWithSWR_pageOffsets getWithSWR_cache
      getWithSWR_pageSWRs rendered_once_simps swr_changed_def js_get_def js_set_def
      first_page_props_def full_page_def next_offset_def cache_set_def)

lemma render_again:
  "render_pages 0 ''projects'' reported_once = ([first_page_props], reported_once)"
  by (simp add: render_pages_def reported_once_simps js_get_def Let_def)

lemma rendered_twice_eq: "rendered_twice = reported_once"
  by (simp add: rendered_twice_def render_again)

lemma render_rebuilt:
  "render_pages 1 ''projects'' reported_once
     = ([second_page_props],
        reported_once\<lparr>pageCacheMap := [''projects'' \<mapsto>
           [Some \<lparr>component = second_page_props, pageFn = 1, entry_offset = Null\<rparr>]]\<rparr>)"
  by (simp add: render_pages_def reported_once_simps js_get_def js_set_def second_page_props_def
      Let_def)

lemma rebuilt_simps:
  "pageCount rebuilt = 1"
  "pageOffsets rebuilt = [Null, Val ''c1'']"
  "pageSWRs rebuilt = [Some full_page]"
  "emptyPageRef rebuilt = False"
  "cache rebuilt = [(pageOffsetKey ''projects'', COffsets [Null, Val ''c1''])]"
  "pageCacheMap rebuilt = [''projects'' \<mapsto>
     [Some \<lparr>component = second_page_props, pageFn = 1, entry_offset = Null\<rparr>]]"
  unfolding rebuilt_def render_rebuilt by (simp_all add: reported_once_simps)

lemma fallen_short_simps:
  "pageCount fallen_short = 1"
  "pageOffsets fallen_short = [Null, Null]"
  "pageSWRs fallen_short = [Some short_page]"
  "emptyPageRef fallen_short = False"
  "cache fallen_short = [(pageOffsetKey ''projects'', COffsets [Null, Null]),
                         (pageOffsetKey ''projects'', COffsets [Null, Val ''c1''])]"
  "pageCacheMap fallen_short = [''projects'' \<mapsto>
     [Some \<lparr>component = second_page_props, pageFn = 1, entry_offset = Null\<rparr>]]"
  by (simp_all add: fallen_short_def getWithSWR_frame getWithSWR_pageOffsets getWithSWR_cache
      getWithSWR_pageSWRs rebuilt_simps swr_changed_def js_get_def js_set_def
      second_page_props_def full_page_def short_page_def next_offset_def cache_set_def)

lemma render_fallen_short:
  "render_pages 1 ''projects'' fallen_short = ([second_page_props], fallen_short)"
  by (simp add: render_pages_def fallen_short_simps js_get_def Let_def)

subsection \<open>The next offset\<close>

text \<open>
  C3. A report with defined \<open>data\<close> is to set \<open>pageOffsets[id + 1]\<close> to the next
  offset, and write the array to the store, exactly when \<open>pageOffsets[id + 1]\<close>
  differs from it. The comparison in the code reads the \<open>pageOffsets\<close> that the
  reporter has seen, and the page cache keeps a reporter in use after the array has
  changed; here the code does otherwise, in both directions. The first page,
  rendered from the page cache, reports that a revalidation has failed, with the
  data it had: \<open>pageOffsets[1]\<close> already is the next offset \<open>c1\<close>, yet the array is
  written to the store once more, because the reporter has seen \<open>[null]\<close>. And
  after the page has fallen short and \<open>pageOffsets[1]\<close> has become \<open>null\<close>, the same
  report, through a reporter that has seen \<open>[null, c1]\<close>, is stored but leaves
  \<open>pageOffsets[1]\<close> at \<open>null\<close> and writes nothing, although the next offset \<open>c1\<close>
  differs from it: the end stays reached.
\<close>

theorem stale_reporter_cursor_writes:
  "fst (render_pages 0 ''projects'' fresh_state) = [first_page_props]
   \<and> fst (render_pages 0 ''projects'' reported_once) = [first_page_props]
   \<and> data failed_page \<noteq> Undefined
   \<and> next_offset failed_page 0 = Val ''c1''
   \<and> js_get Undefined (pageOffsets rendered_twice) (0 + 1) = Val ''c1''
   \<and> cache (getWithSWR ''projects'' next_offset (withSWR first_page_props) failed_page
        rendered_twice)
       = cache_set (pageOffsetKey ''projects'') (COffsets [Null, Val ''c1'']) (cache rendered_twice)
   \<and> cache (getWithSWR ''projects'' next_offset (withSWR first_page_props) failed_page
        rendered_twice)
       \<noteq> cache rendered_twice
   \<and> render_pages 1 ''projects'' fallen_short = ([second_page_props], fallen_short)
   \<and> js_get Undefined (pageOffsets fallen_short) (0 + 1) = Null
   \<and> pageSWRs (getWithSWR ''projects'' next_offset (withSWR second_page_props) failed_page
        fallen_short) = [Some failed_page]
   \<and> pageOffsets (getWithSWR ''projects'' next_offset (withSWR second_page_props) failed_page
        fallen_short) = [Null, Null]
   \<and> cache (getWithSWR ''projects'' next_offset (withSWR second_page_props) failed_page
        fallen_short) = cache fallen_short
   \<and> isReachingEnd (getWithSWR ''projects'' next_offset (withSWR second_page_props) failed_page
        fallen_short)"
proof -
  have a: "fst (render_pages 0 ''projects'' fresh_state) = [first_page_props]"
    "fst (render_pages 0 ''projects'' reported_once) = [first_page_props]"
    by (simp_all add: render_fresh render_again)
  have b: "data failed_page \<noteq> Undefined" "next_offset failed_page 0 = Val ''c1''"
    "js_get Undefined (pageOffsets rendered_twice) (0 + 1) = Val ''c1''"
    by (simp_all add: failed_page_def next_offset_def rendered_twice_eq reported_once_simps
        js_get_def)
  have c: "cache (getWithSWR ''projects'' next_offset (withSWR first_page_props) failed_page
        rendered_twice)
       = cache_set (pageOffsetKey ''projects'') (COffsets [Null, Val ''c1'']) (cache rendered_twice)"
    by (simp add: rendered_twice_eq reported_once_simps getWithSWR_cache swr_changed_def
        js_get_def js_set_def first_page_props_def failed_page_def next_offset_def)
  have "cache_set (pageOffsetKey ''projects'') (COffsets [Null, Val ''c1'']) (cache rendered_twice)
          \<noteq> cache rendered_twice"
    by (simp add: cache_set_def)
  with c have d: "cache (getWithSWR ''projects'' next_offset (withSWR first_page_props) failed_page
        rendered_twice) \<noteq> cache rendered_twice"
    by simp
  have e: "render_pages 1 ''projects'' fallen_short = ([second_page_props], fallen_short)"
    by (rule render_fallen_short)
  have f: "js_get Undefined (pageOffsets fallen_short) (0 + 1) = Null"
    by (simp add: fallen_short_simps js_get_def)
  have g: "pageSWRs (getWithSWR ''projects'' next_offset (withSWR second_page_props) failed_page
        fallen_short) = [Some failed_page]"
    by (simp add: getWithSWR_pageSWRs fallen_short_simps swr_changed_def js_get_def js_set_def
        second_page_props_def full_page_def failed_page_def)
  have h: "pageOffsets (getWithSWR ''projects'' next_offset (withSWR second_page_props) failed_page
        fallen_short) = [Null, Null]"
    by (simp add: getWithSWR_pageOffsets fallen_short_simps swr_changed_def js_get_def
        second_page_props_def full_page_def failed_page_def next_offset_def)
  have i: "cache (getWithSWR ''projects'' next_offset (withSWR second_page_props) failed_page
        fallen_short) = cache fallen_short"
    by (simp add: getWithSWR_cache fallen_short_simps swr_changed_def js_get_def
        second_page_props_def full_page_def failed_page_def next_offset_def)
  have j: "isReachingEnd (getWithSWR ''projects'' next_offset (withSWR second_page_props)
        failed_page fallen_short)"
    by (simp add: isReachingEnd_def h getWithSWR_frame fallen_short_simps js_get_def)
  from a b c d e f g h i j show ?thesis by blast
qed

subsection \<open>resetPages\<close>

text \<open>
  C4. After \<open>resetPages\<close>, whatever the state was: \<open>pageCount\<close> is 1, \<open>pageOffsets\<close> is
  \<open>[null]\<close>, the stored fetch results are gone, 1 has been written to the store
  under the page-count key and \<open>[null]\<close> under the page-offset key of this page key
  (two different keys, so the store holds both), and the page cache of this page
  key is the empty list.
\<close>

theorem reset_result:
  "pageCount (resetPages pageKey s) = 1
   \<and> pageOffsets (resetPages pageKey s) = [Null]
   \<and> pageSWRs (resetPages pageKey s) = []
   \<and> cache (resetPages pageKey s)
       = cache_set (pageOffsetKey pageKey) (COffsets [Null])
           (cache_set (pageCountKey pageKey) (CCount 1) (cache s))
   \<and> cache_get (cache (resetPages pageKey s)) (pageCountKey pageKey) = Some (CCount 1)
   \<and> cache_get (cache (resetPages pageKey s)) (pageOffsetKey pageKey) = Some (COffsets [Null])
   \<and> pageCacheMap (resetPages pageKey s) pageKey = Some []
   \<and> Reset pageKey s = resetPages pageKey s"
  using keys_distinct [of pageKey] by (simp add: resetPages_def Reset_def cache_get_set)

subsection \<open>Reaching the end\<close>






subsection \<open>Reporting the same result again\<close>

text \<open>
  C6. A report whose \<open>data\<close>, \<open>error\<close> and \<open>revalidate\<close> are identical to those of
  the result stored for the slot is to change nothing. The guard in the code reads
  the \<open>pageSWRs\<close> that the reporter has seen, and the page cache keeps a reporter in
  use after a result has been stored; here the code does otherwise. The first
  page, rendered from the page cache, reports a result that is identical to the
  stored one in \<open>data\<close>, \<open>error\<close> and \<open>revalidate\<close> and differs in \<open>isValidating\<close>:
  its reporter has seen no stored result, so the result is stored and the offsets
  are written to the store again; reporting the very result that is stored writes
  the offsets to the store again as well. In the other direction, a reporter that
  has seen the full page stored drops a report of the full page although the
  result stored by now is the short page.
\<close>

theorem stale_reporter_stores_again:
  "fst (render_pages 0 ''projects'' fresh_state) = [first_page_props]
   \<and> fst (render_pages 0 ''projects'' reported_once) = [first_page_props]
   \<and> js_get None (pageSWRs rendered_twice) 0 = Some full_page
   \<and> data full_page = data revalidating_page \<and> error full_page = error revalidating_page
   \<and> revalidate full_page = revalidate revalidating_page
   \<and> pageSWRs (getWithSWR ''projects'' next_offset (withSWR first_page_props) revalidating_page
        rendered_twice) = [Some revalidating_page]
   \<and> cache (getWithSWR ''projects'' next_offset (withSWR first_page_props) revalidating_page
        rendered_twice)
       = cache_set (pageOffsetKey ''projects'') (COffsets [Null, Val ''c1'']) (cache rendered_twice)
   \<and> getWithSWR ''projects'' next_offset (withSWR first_page_props) revalidating_page
        rendered_twice \<noteq> rendered_twice
   \<and> cache (getWithSWR ''projects'' next_offset (withSWR first_page_props) full_page
        rendered_twice)
       = cache_set (pageOffsetKey ''projects'') (COffsets [Null, Val ''c1'']) (cache rendered_twice)
   \<and> getWithSWR ''projects'' next_offset (withSWR first_page_props) full_page
        rendered_twice \<noteq> rendered_twice
   \<and> render_pages 1 ''projects'' fallen_short = ([second_page_props], fallen_short)
   \<and> js_get None (pageSWRs fallen_short) 0 = Some short_page
   \<and> data short_page \<noteq> data full_page
   \<and> getWithSWR ''projects'' next_offset (withSWR second_page_props) full_page fallen_short
       = fallen_short"
proof -
  have a: "fst (render_pages 0 ''projects'' fresh_state) = [first_page_props]"
    "fst (render_pages 0 ''projects'' reported_once) = [first_page_props]"
    by (simp_all add: render_fresh render_again)
  have b: "js_get None (pageSWRs rendered_twice) 0 = Some full_page"
    "data full_page = data revalidating_page" "error full_page = error revalidating_page"
    "revalidate full_page = revalidate revalidating_page"
    by (simp_all add: rendered_twice_eq reported_once_simps js_get_def full_page_def
        revalidating_page_def)
  have c: "pageSWRs (getWithSWR ''projects'' next_offset (withSWR first_page_props)
        revalidating_page rendered_twice) = [Some revalidating_page]"
    by (simp add: rendered_twice_eq reported_once_simps getWithSWR_pageSWRs swr_changed_def
        js_get_def js_set_def first_page_props_def)
  have d: "cache (getWithSWR ''projects'' next_offset (withSWR first_page_props) revalidating_page
        rendered_twice)
       = cache_set (pageOffsetKey ''projects'') (COffsets [Null, Val ''c1'']) (cache rendered_twice)"
    by (simp add: rendered_twice_eq reported_once_simps getWithSWR_cache swr_changed_def
        js_get_def js_set_def first_page_props_def revalidating_page_def next_offset_def)
  have "pageSWRs rendered_twice \<noteq> [Some revalidating_page]"
    by (simp add: rendered_twice_eq reported_once_simps full_page_def revalidating_page_def)
  with c have e: "getWithSWR ''projects'' next_offset (withSWR first_page_props) revalidating_page
        rendered_twice \<noteq> rendered_twice"
    by metis
  have f: "cache (getWithSWR ''projects'' next_offset (withSWR first_page_props) full_page
        rendered_twice)
       = cache_set (pageOffsetKey ''projects'') (COffsets [Null, Val ''c1'']) (cache rendered_twice)"
    by (simp add: rendered_twice_eq reported_once_simps getWithSWR_cache swr_changed_def
        js_get_def js_set_def first_page_props_def full_page_def next_offset_def)
  have "cache_set (pageOffsetKey ''projects'') (COffsets [Null, Val ''c1'']) (cache rendered_twice)
          \<noteq> cache rendered_twice"
    by (simp add: cache_set_def)
  with f have g: "getWithSWR ''projects'' next_offset (withSWR first_page_props) full_page
        rendered_twice \<noteq> rendered_twice"
    by metis
  have h: "render_pages 1 ''projects'' fallen_short = ([second_page_props], fallen_short)"
    by (rule render_fallen_short)
  have i: "js_get None (pageSWRs fallen_short) 0 = Some short_page"
    "data short_page \<noteq> data full_page"
    by (simp_all add: fallen_short_simps js_get_def short_page_def full_page_def)
  have j: "getWithSWR ''projects'' next_offset (withSWR second_page_props) full_page fallen_short
       = fallen_short"
    by (simp add: getWithSWR_def swr_changed_def js_get_def second_page_props_def)
  from a b c d e f g h i j show ?thesis by blast
qed

subsection \<open>The empty flag\<close>

lemma Page_simps:
  "fst (Page pageFnRef p s) = pageFnRef p"
  "snd (Page pageFnRef p s) = s\<lparr>emptyPageRef := empty_flag (pageFnRef p)\<rparr>"
  by (simp_all add: Page_def Let_def)

lemma empty_flag_iff: "empty_flag d \<longleftrightarrow> d = Items [] \<or> d = Element"
  by (cases d) (simp_all add: empty_flag_def)

lemma isEmpty_iff:
  "isEmpty s \<longleftrightarrow> pageCount s = 1 \<and> js_get Undefined (pageOffsets s) 1 = Null \<and> emptyPageRef s"
  by (auto simp: isEmpty_def isReachingEnd_def)

text \<open>
  C7. \<open>isEmpty\<close> is to be true only when the one requested page has rendered an item
  sequence with no items; the comment above the assignment of the ref speaks of
  \<open>dataList\<close> being \<open>[]\<close>. With one page requested, its end reached and three
  projects fetched, a page function that returns a single placeholder element,
  which is no item sequence at all, makes the ref true, \<open>!dataList.length\<close> being
  true of a truthy value without a \<open>length\<close>; \<open>isEmpty\<close>, as the next render of the
  hook computes it from that ref, is true.
\<close>

theorem isEmpty_on_placeholder:
  "pageCount at_end = 1
   \<and> js_get Undefined (pageOffsets at_end) 1 = Null
   \<and> pageSWRs at_end = [Some short_page]
   \<and> fst (Page placeholder_page first_page_props at_end) = Element
   \<and> fst (Page placeholder_page first_page_props at_end) \<noteq> Items []
   \<and> emptyPageRef (snd (Page placeholder_page first_page_props at_end))
   \<and> pageCount (snd (Page placeholder_page first_page_props at_end)) = 1
   \<and> isEmpty (snd (Page placeholder_page first_page_props at_end))"
  by (simp add: Page_simps isEmpty_iff empty_flag_iff placeholder_page_def at_end_simps js_get_def)

subsection \<open>The first offset\<close>

lemma getWithSWR_head:
  "pageOffsets s = Null # ys \<Longrightarrow> \<exists>zs. pageOffsets (getWithSWR k f r x s) = Null # zs"
  by (simp add: getWithSWR_pageOffsets js_set_keeps_head)

lemma apply_call_head:
  assumes "\<exists>ys. pageOffsets s = Null # ys"
  shows "\<exists>zs. pageOffsets (apply_call k f s c) = Null # zs"
proof (cases c)
  case (CallLoadMore a b)
  with assms show ?thesis by (simp add: loadMore_pageOffsets)
next
  case CallReset
  then show ?thesis by (simp add: resetPages_def)
next
  case (CallReport r x)
  with assms show ?thesis
    by (auto dest: getWithSWR_head)
qed

lemma replay_head:
  "\<exists>ys. pageOffsets s = Null # ys \<Longrightarrow> \<exists>zs. pageOffsets (replay k f s cs) = Null # zs"
  unfolding replay_def
proof (induction cs arbitrary: s)
  case Nil
  then show ?case by simp
next
  case (Cons c cs)
  from Cons.prems have "\<exists>zs. pageOffsets (apply_call k f s c) = Null # zs"
    by (rule apply_call_head)
  then show ?case
    using Cons.IH by simp
qed

lemma perform_head:
  assumes "\<exists>ys. pageOffsets s = Null # ys"
  shows "\<exists>zs. pageOffsets (perform k f s a) = Null # zs"
proof (cases a)
  case DoLoadMore
  with assms show ?thesis by (simp add: loadMore_pageOffsets)
next
  case DoReset
  then show ?thesis by (simp add: Reset_def resetPages_def)
next
  case (DoReport i x)
  with assms show ?thesis
    by (auto simp: ReportFetchResult_def dest: getWithSWR_head)
qed

lemma run_head:
  "\<exists>ys. pageOffsets s = Null # ys \<Longrightarrow> \<exists>zs. pageOffsets (run k f s as) = Null # zs"
  unfolding run_def
proof (induction as arbitrary: s)
  case Nil
  then show ?case by simp
next
  case (Cons a as)
  from Cons.prems have "\<exists>zs. pageOffsets (perform k f s a) = Null # zs"
    by (rule perform_head)
  then show ?case
    using Cons.IH by simp
qed

lemma first_offset_of_head:
  "\<exists>zs. pageOffsets s = Null # zs \<Longrightarrow> js_get Undefined (pageOffsets s) 0 = Null"
  by (auto simp: js_get_def)

lemma run_first_offset:
  "js_get Undefined (pageOffsets (run k f (default_state k) as)) 0 = Null"
  by (rule first_offset_of_head, rule run_head) (simp add: default_state_simps)

lemma replay_first_offset:
  "js_get Undefined (pageOffsets (replay k f (default_state k) cs)) 0 = Null"
  by (rule first_offset_of_head, rule replay_head) (simp add: default_state_simps)

text \<open>
  C8. In every state reached from the default state by \<open>LoadMore\<close>, \<open>Reset\<close> and
  \<open>ReportFetchResult\<close> in any order, \<open>pageOffsets[0]\<close> is \<open>null\<close>: the only write into
  the array goes to index \<open>id + 1\<close>. The same holds when the calls go through
  callbacks of any earlier render.
\<close>

theorem first_cursor_always_null:
  "js_get Undefined (pageOffsets (run pageKey SWRToOffset (default_state pageKey) as)) 0 = Null
   \<and> js_get Undefined (pageOffsets (replay pageKey SWRToOffset (default_state pageKey) cs)) 0
       = Null"
  by (simp add: run_first_offset replay_first_offset)

subsection \<open>Loading more and reaching the end exclude each other\<close>

text \<open>
  C9. In every state, \<open>isLoadingMore\<close> and \<open>isReachingEnd\<close> are not both true: when
  \<open>pageCount > pageOffsets.length\<close>, the read \<open>pageOffsets[pageCount]\<close> is out of range
  and yields \<open>undefined\<close>, not \<open>null\<close>.
\<close>

theorem loading_and_end_exclusive:
  "\<not> (isLoadingMore s \<and> isReachingEnd s)
   \<and> (isLoadingMore s \<longrightarrow> js_get Undefined (pageOffsets s) (pageCount s) = Undefined)"
  by (auto simp: isLoadingMore_def isReachingEnd_def js_get_def)

theorem loading_and_end_exclusive_witness:
  "isLoadingMore (loadMore ''projects'' False False fresh_state)
   \<and> js_get Undefined (pageOffsets (loadMore ''projects'' False False fresh_state))
        (pageCount (loadMore ''projects'' False False fresh_state)) = Undefined
   \<and> \<not> isReachingEnd (loadMore ''projects'' False False fresh_state)"
proof -
  have h: "isLoadingMore (loadMore ''projects'' False False fresh_state)"
    by (simp add: loadMore_def isLoadingMore_def fresh_state_simps Let_def)
  from h loading_and_end_exclusive [where s = "loadMore ''projects'' False False fresh_state"]
  show ?thesis by blast
qed

subsection \<open>What a report leaves alone\<close>

text \<open>
  C10. A report for slot \<open>id\<close>, through whichever reporter, leaves \<open>pageCount\<close> as it
  is, every offset at an index other than \<open>id + 1\<close>, and every stored result of a
  slot other than \<open>id\<close>; nor does it touch the ref, the page cache, or what the store
  holds under any key other than the page-offset key, under which it writes at
  most once.
\<close>

theorem report_frame:
  "pageCount (ReportFetchResult pageKey SWRToOffset i x s) = pageCount s
   \<and> (\<forall>j. j \<noteq> i + 1 \<longrightarrow>
        js_get Undefined (pageOffsets (ReportFetchResult pageKey SWRToOffset i x s)) j
          = js_get Undefined (pageOffsets s) j)
   \<and> (\<forall>j. j \<noteq> i \<longrightarrow>
        js_get None (pageSWRs (ReportFetchResult pageKey SWRToOffset i x s)) j
          = js_get None (pageSWRs s) j)
   \<and> emptyPageRef (ReportFetchResult pageKey SWRToOffset i x s) = emptyPageRef s
   \<and> pageCacheMap (ReportFetchResult pageKey SWRToOffset i x s) = pageCacheMap s
   \<and> (\<forall>k. k \<noteq> pageOffsetKey pageKey \<longrightarrow>
        cache_get (cache (ReportFetchResult pageKey SWRToOffset i x s)) k = cache_get (cache s) k)
   \<and> pageCount (getWithSWR pageKey SWRToOffset r x s) = pageCount s
   \<and> (\<forall>j. j \<noteq> slot r + 1 \<longrightarrow>
        js_get Undefined (pageOffsets (getWithSWR pageKey SWRToOffset r x s)) j
          = js_get Undefined (pageOffsets s) j)
   \<and> (\<forall>j. j \<noteq> slot r \<longrightarrow>
        js_get None (pageSWRs (getWithSWR pageKey SWRToOffset r x s)) j
          = js_get None (pageSWRs s) j)
   \<and> emptyPageRef (getWithSWR pageKey SWRToOffset r x s) = emptyPageRef s
   \<and> pageCacheMap (getWithSWR pageKey SWRToOffset r x s) = pageCacheMap s
   \<and> (\<forall>k. k \<noteq> pageOffsetKey pageKey \<longrightarrow>
        cache_get (cache (getWithSWR pageKey SWRToOffset r x s)) k = cache_get (cache s) k)
   \<and> (cache (getWithSWR pageKey SWRToOffset r x s) = cache s
        \<or> (\<exists>arr. cache (getWithSWR pageKey SWRToOffset r x s)
                    = cache_set (pageOffsetKey pageKey) (COffsets arr) (cache s)))"
  using getWithSWR_one_write [of pageKey SWRToOffset r x s]
  by (simp add: ReportFetchResult_def getWithSWR_frame getWithSWR_other_offsets
      getWithSWR_other_swrs getWithSWR_other_keys)

theorem report_frame_witness:
  "(0::nat) \<noteq> 0 + 1 \<and> (1::nat) \<noteq> 0
   \<and> pageCountKey ''projects'' \<noteq> pageOffsetKey ''projects''
   \<and> js_get Undefined (pageOffsets
        (ReportFetchResult ''projects'' next_offset 0 short_page one_page_loaded)) 0
       = js_get Undefined (pageOffsets one_page_loaded) 0
   \<and> js_get None (pageSWRs
        (ReportFetchResult ''projects'' next_offset 0 short_page one_page_loaded)) 1
       = js_get None (pageSWRs one_page_loaded) 1
   \<and> cache_get (cache (ReportFetchResult ''projects'' next_offset 0 short_page one_page_loaded))
        (pageCountKey ''projects'') = cache_get (cache one_page_loaded) (pageCountKey ''projects'')
   \<and> pageCount (ReportFetchResult ''projects'' next_offset 0 short_page one_page_loaded)
       = pageCount one_page_loaded
   \<and> js_get Undefined (pageOffsets
        (ReportFetchResult ''projects'' next_offset 0 short_page one_page_loaded)) 1
       \<noteq> js_get Undefined (pageOffsets one_page_loaded) 1"
proof -
  have h: "(0::nat) \<noteq> 0 + 1" "(1::nat) \<noteq> 0"
    "pageCountKey ''projects'' \<noteq> pageOffsetKey ''projects''"
    by (simp_all add: keys_distinct)
  note t = report_frame [where s = one_page_loaded and i = 0 and x = short_page
      and pageKey = "''projects''" and SWRToOffset = next_offset]
  from t h have a: "js_get Undefined (pageOffsets
        (ReportFetchResult ''projects'' next_offset 0 short_page one_page_loaded)) 0
       = js_get Undefined (pageOffsets one_page_loaded) 0"
    "js_get None (pageSWRs
        (ReportFetchResult ''projects'' next_offset 0 short_page one_page_loaded)) 1
       = js_get None (pageSWRs one_page_loaded) 1"
    "cache_get (cache (ReportFetchResult ''projects'' next_offset 0 short_page one_page_loaded))
        (pageCountKey ''projects'') = cache_get (cache one_page_loaded) (pageCountKey ''projects'')"
    "pageCount (ReportFetchResult ''projects'' next_offset 0 short_page one_page_loaded)
       = pageCount one_page_loaded"
    by blast+
  have c: "js_get Undefined (pageOffsets
        (ReportFetchResult ''projects'' next_offset 0 short_page one_page_loaded)) 1
       \<noteq> js_get Undefined (pageOffsets one_page_loaded) 1"
    by (simp add: report_short_after_full one_page_loaded_simps js_get_def)
  from h a c show ?thesis by blast
qed

subsection \<open>The bound on pageCount with reports and resets in between\<close>

text \<open>
  A report never shortens \<open>pageOffsets\<close> and a reset restores the default, so the
  bound \<open>pageCount \<le> pageOffsets.length + 1\<close> holds after every list of \<open>LoadMore\<close>,
  \<open>Reset\<close> and \<open>ReportFetchResult\<close> with a render before each call.
\<close>

lemma length_js_set: "length (js_set h xs i v) = max (length xs) (Suc i)"
  by (auto simp: js_set_def)

lemma getWithSWR_length:
  "length (pageOffsets s) \<le> length (pageOffsets (getWithSWR k f r x s))"
  by (simp add: getWithSWR_pageOffsets length_js_set)

lemma perform_bound:
  assumes "pageCount s \<le> Suc (length (pageOffsets s))"
  shows "pageCount (perform k f s a) \<le> Suc (length (pageOffsets (perform k f s a)))"
proof (cases a)
  case DoLoadMore
  with assms show ?thesis by (simp add: loadMore_rendered_bound)
next
  case DoReset
  then show ?thesis by (simp add: Reset_def resetPages_def)
next
  case (DoReport i x)
  have "length (pageOffsets s) \<le> length (pageOffsets (ReportFetchResult k f i x s))"
    by (simp add: ReportFetchResult_def getWithSWR_length)
  with assms DoReport show ?thesis
    by (simp add: ReportFetchResult_def getWithSWR_frame)
qed

lemma run_bound:
  "pageCount s \<le> Suc (length (pageOffsets s)) \<Longrightarrow>
   pageCount (run k f s as) \<le> Suc (length (pageOffsets (run k f s as)))"
  unfolding run_def
proof (induction as arbitrary: s)
  case Nil
  then show ?case by simp
next
  case (Cons a as)
  from Cons.prems
  have "pageCount (perform k f s a) \<le> Suc (length (pageOffsets (perform k f s a)))"
    by (rule perform_bound)
  then show ?case
    using Cons.IH by simp
qed

lemma reachable_bound:
  "pageCount (run k f (default_state k :: ('v, 'f) hook_state) as)
     \<le> Suc (length (pageOffsets (run k f (default_state k :: ('v, 'f) hook_state) as)))"
  by (rule run_bound) (simp add: default_state_simps)

end
